theory Spec2Isabelle
  imports
    Main
    "HOL-Library.Multiset"
    "HOL-Library.Char_ord"
    "HOL-Library.List_Lexorder"
    "HOL-Library.Product_Lexorder"
begin

section \<open>The port scanner of NewPortScanner.py\<close>

text \<open>
  The scanner is modelled as the source is written. Python integers are \<open>int\<close>,
  strings are \<open>string\<close>, the shared list \<open>open_ports\<close> is a list of pairs
  (port, service name). Exceptions are values of the type \<open>exn\<close>; a call that may
  raise returns \<open>exn + 'a\<close> with \<open>Inl\<close> for the exception.
\<close>

subsection \<open>Exceptions\<close>

text \<open>
  Only the classes that the handlers of the source tell apart are kept:
  \<open>socket.error\<close> is \<open>OSError\<close>, \<open>socket.gaierror\<close> is a subclass of it,
  \<open>queue.Empty\<close>, \<open>KeyboardInterrupt\<close> (not a subclass of \<open>Exception\<close>), and
  three other subclasses of \<open>Exception\<close> that are not socket errors.
\<close>

datatype exn =
    OSError
  | GaiError
  | Empty
  | KeyboardInterrupt
  | OverflowError
  | ZeroDivisionError
  | ValueError

fun is_socket_error :: "exn \<Rightarrow> bool" where
  "is_socket_error OSError = True"
| "is_socket_error GaiError = True"
| "is_socket_error _ = False"

fun is_Exception :: "exn \<Rightarrow> bool" where
  "is_Exception KeyboardInterrupt = False"
| "is_Exception _ = True"

subsection \<open>The environment: network and service database\<close>

text \<open>
  The library calls of the source are parameters of the model. \<open>socket_new\<close> is
  \<open>socket.socket(AF_INET, SOCK_STREAM)\<close> called for the probe of a port (\<open>None\<close>: the
  socket is created), \<open>connect_ex\<close> is \<open>sock.connect_ex((ip, port))\<close>, which returns
  an error indicator or raises, \<open>getservbyport\<close> is \<open>socket.getservbyport(port)\<close> and
  \<open>gethostbyname\<close> is \<open>socket.gethostbyname(target)\<close>. \<open>sock.settimeout(1)\<close> has
  no outcome of its own here.
\<close>

record env =
  socket_new :: "int \<Rightarrow> exn option"
  connect_ex :: "string \<Rightarrow> int \<Rightarrow> exn + int"
  getservbyport :: "int \<Rightarrow> exn + string"
  gethostbyname :: "string \<Rightarrow> exn + string"

subsection \<open>get_service_name\<close>

definition get_service_name :: "env \<Rightarrow> int \<Rightarrow> exn + string" where
  "get_service_name en port =
     (case getservbyport en port of
        Inr name \<Rightarrow> Inr name
      | Inl e \<Rightarrow> if is_socket_error e then Inr ''unknown'' else Inl e)"

subsection \<open>scan_port\<close>

text \<open>
  The probe of one port. The result is the exception that leaves the function (if any),
  the list \<open>open_ports\<close> after the call, and the events of the socket of this call.
  The lock only makes the append atomic; the steps of the workers below are atomic.
\<close>

datatype sock_event = SockOpen | SockClose

definition scan_port ::
  "env \<Rightarrow> string \<Rightarrow> int \<Rightarrow> (int \<times> string) list
     \<Rightarrow> exn option \<times> (int \<times> string) list \<times> sock_event list" where
  "scan_port en ip port open_ports =
     (case socket_new en port of
        Some e \<Rightarrow> (if is_socket_error e then None else Some e, open_ports, [])
      | None \<Rightarrow>
         (case connect_ex en ip port of
            Inl e \<Rightarrow> (if is_socket_error e then None else Some e, open_ports, [SockOpen])
          | Inr result \<Rightarrow>
             if result = 0 then
               (case get_service_name en port of
                  Inl e \<Rightarrow> (if is_socket_error e then None else Some e, open_ports, [SockOpen])
                | Inr name \<Rightarrow> (None, open_ports @ [(port, name)], [SockOpen, SockClose]))
             else (None, open_ports, [SockOpen, SockClose])))"

text \<open>
  A host on which only port 80 accepts connections and the service database knows
  ports 22 and 80. A port outside 0..65535 makes \<open>connect_ex\<close> and \<open>getservbyport\<close>
  raise \<open>OverflowError\<close>, as CPython does; a closed port gives the error indicator 111.
\<close>

definition host80 :: env where
  "host80 =
     \<lparr> socket_new = (\<lambda>_. None),
       connect_ex = (\<lambda>ip port.
          if port < 0 \<or> 65535 < port then Inl OverflowError
          else if port = 80 then Inr 0 else Inr 111),
       getservbyport = (\<lambda>port.
          if port < 0 \<or> 65535 < port then Inl OverflowError
          else if port = 80 then Inr ''http''
          else if port = 22 then Inr ''ssh''
          else Inl OSError),
       gethostbyname = (\<lambda>target.
          if target = ''localhost'' then Inr ''127.0.0.1'' else Inl GaiError) \<rparr>"

subsection \<open>The workers and the shared state\<close>

text \<open>
  The threads of \<open>scan_ports\<close> run \<open>worker\<close> concurrently. A worker is at one of
  four points of its loop: before \<open>queue.get_nowait()\<close>, before \<open>scan_port\<close> with
  the port it took, before the locked update of the progress counter, and before
  \<open>queue.task_done()\<close>; or it has left the loop on \<open>Empty\<close>, or an exception that
  \<open>worker\<close> does not catch has ended its thread. Each of the four actions is atomic:
  the queue has its own mutex and the other two run under \<open>lock\<close>.

  The shared state is the queue with its count of unfinished tasks (what
  \<open>queue.join()\<close> waits for), \<open>open_ports\<close>, the progress counter and the threads.
  \<open>probed\<close> is a history: the calls of \<open>scan_port\<close> made so far, with the index of
  the calling thread.
\<close>

datatype wstate = AtGet | AtScan int | AtProgress | AtTaskDone | Exited | Died

record scan_state =
  queue :: "int list"
  unfinished_tasks :: nat
  open_ports :: "(int \<times> string) list"
  progress_counter :: int
  workers :: "wstate list"
  probed :: "(nat \<times> int) list"

text \<open>
  \<open>print_progress\<close> only writes to the console, except that its first statement divides
  by \<open>total\<close>; the text of the progress bar is not modelled.
\<close>

definition print_progress :: "int \<Rightarrow> int \<Rightarrow> exn option" where
  "print_progress current total_ports = (if total_ports = 0 then Some ZeroDivisionError else None)"

text \<open>
  \<open>queue.get_nowait()\<close> takes the first port or raises \<open>Empty\<close>;
  \<open>queue.task_done()\<close> raises \<open>ValueError\<close> when no task is unfinished.
\<close>

definition get_nowait :: "int list \<Rightarrow> exn + int \<times> int list" where
  "get_nowait q = (case q of [] \<Rightarrow> Inl Empty | port # rest \<Rightarrow> Inr (port, rest))"

definition task_done :: "nat \<Rightarrow> exn + nat" where
  "task_done unfinished = (if unfinished = 0 then Inl ValueError else Inr (unfinished - 1))"

text \<open>One atomic action of thread \<open>i\<close>, at its point of the loop of \<open>worker\<close>.\<close>

definition worker_step :: "env \<Rightarrow> string \<Rightarrow> int \<Rightarrow> nat \<Rightarrow> scan_state \<Rightarrow> scan_state" where
  "worker_step en ip total_ports i st =
     (case workers st ! i of
        AtGet \<Rightarrow>
          (case get_nowait (queue st) of
             Inr (port, rest) \<Rightarrow> st\<lparr>queue := rest, workers := (workers st)[i := AtScan port]\<rparr>
           | Inl e \<Rightarrow>
               if e = Empty then st\<lparr>workers := (workers st)[i := Exited]\<rparr>
               else st\<lparr>workers := (workers st)[i := Died]\<rparr>)
      | AtScan port \<Rightarrow>
          (case scan_port en ip port (open_ports st) of
             (None, ops, evs) \<Rightarrow>
               st\<lparr>open_ports := ops, probed := probed st @ [(i, port)],
                  workers := (workers st)[i := AtProgress]\<rparr>
           | (Some e, ops, evs) \<Rightarrow>
               st\<lparr>open_ports := ops, probed := probed st @ [(i, port)],
                  workers := (workers st)[i := Died]\<rparr>)
      | AtProgress \<Rightarrow>
          (case print_progress (progress_counter st + 1) total_ports of
             None \<Rightarrow>
               st\<lparr>progress_counter := progress_counter st + 1,
                  workers := (workers st)[i := AtTaskDone]\<rparr>
           | Some e \<Rightarrow>
               st\<lparr>progress_counter := progress_counter st + 1,
                  workers := (workers st)[i := Died]\<rparr>)
      | AtTaskDone \<Rightarrow>
          (case task_done (unfinished_tasks st) of
             Inr n \<Rightarrow> st\<lparr>unfinished_tasks := n, workers := (workers st)[i := AtGet]\<rparr>
           | Inl e \<Rightarrow> st\<lparr>workers := (workers st)[i := Died]\<rparr>)
      | Exited \<Rightarrow> st
      | Died \<Rightarrow> st)"

lemma worker_step_unfold:
  "worker_step en ip total_ports i st =
     (case workers st ! i of
        AtGet \<Rightarrow>
          (case queue st of
             [] \<Rightarrow> st\<lparr>workers := (workers st)[i := Exited]\<rparr>
           | port # rest \<Rightarrow> st\<lparr>queue := rest, workers := (workers st)[i := AtScan port]\<rparr>)
      | AtScan port \<Rightarrow>
          (case scan_port en ip port (open_ports st) of
             (None, ops, evs) \<Rightarrow>
               st\<lparr>open_ports := ops, probed := probed st @ [(i, port)],
                  workers := (workers st)[i := AtProgress]\<rparr>
           | (Some e, ops, evs) \<Rightarrow>
               st\<lparr>open_ports := ops, probed := probed st @ [(i, port)],
                  workers := (workers st)[i := Died]\<rparr>)
      | AtProgress \<Rightarrow>
          (case print_progress (progress_counter st + 1) total_ports of
             None \<Rightarrow>
               st\<lparr>progress_counter := progress_counter st + 1,
                  workers := (workers st)[i := AtTaskDone]\<rparr>
           | Some e \<Rightarrow>
               st\<lparr>progress_counter := progress_counter st + 1,
                  workers := (workers st)[i := Died]\<rparr>)
      | AtTaskDone \<Rightarrow>
          (if unfinished_tasks st = 0 then st\<lparr>workers := (workers st)[i := Died]\<rparr>
           else st\<lparr>unfinished_tasks := unfinished_tasks st - 1,
                   workers := (workers st)[i := AtGet]\<rparr>)
      | Exited \<Rightarrow> st
      | Died \<Rightarrow> st)"
  by (simp add: worker_step_def get_nowait_def task_done_def
      split: wstate.splits list.splits)

text \<open>
  The scheduler: \<open>sched k\<close> chooses, at step \<open>k\<close>, among the threads that still
  run. \<open>intr = Some k\<close> is an interrupt of the user that reaches the main thread
  after \<open>k\<close> steps of the workers. The run ends when no thread runs any more or when the
  interrupt arrives; every step of a thread brings the end nearer, so the run is total.
\<close>

fun is_alive :: "wstate \<Rightarrow> bool" where
  "is_alive Exited = False"
| "is_alive Died = False"
| "is_alive _ = True"

definition alive :: "wstate list \<Rightarrow> nat list" where
  "alive ws = filter (\<lambda>i. is_alive (ws ! i)) [0..<length ws]"

fun weight :: "wstate \<Rightarrow> nat" where
  "weight AtGet = 1"
| "weight (AtScan p) = 4"
| "weight AtProgress = 3"
| "weight AtTaskDone = 2"
| "weight Exited = 0"
| "weight Died = 0"

definition remaining :: "scan_state \<Rightarrow> nat" where
  "remaining st = 4 * length (queue st) + sum_list (map weight (workers st))"

lemma sum_list_map_update:
  fixes f :: "'a \<Rightarrow> 'b::comm_monoid_add"
  shows "i < length ws \<Longrightarrow>
    sum_list (map f (ws[i := w])) + f (ws ! i) = sum_list (map f ws) + f w"
  by (induction ws arbitrary: i) (auto split: nat.splits simp: add_ac)

lemma alive_D: "i \<in> set (alive ws) \<Longrightarrow> i < length ws \<and> is_alive (ws ! i)"
  by (auto simp: alive_def)

lemma worker_step_decreases:
  assumes "i \<in> set (alive (workers st))"
  shows "remaining (worker_step en ip tp i st) < remaining st"
proof -
  from assms have i: "i < length (workers st)" and a: "is_alive (workers st ! i)"
    by (auto dest: alive_D)
  have upd: "\<And>w. sum_list (map weight ((workers st)[i := w])) + weight (workers st ! i)
      = sum_list (map weight (workers st)) + weight w"
    using i by (rule sum_list_map_update)
  show ?thesis
  proof (cases "workers st ! i")
    case AtGet
    then show ?thesis using upd [of Exited] upd [of "AtScan (hd (queue st))"]
      by (auto simp: worker_step_unfold remaining_def split: list.splits)
  next
    case (AtScan p)
    then show ?thesis using upd [of AtProgress] upd [of Died]
      by (auto simp: worker_step_unfold remaining_def split: prod.splits option.splits)
  next
    case AtProgress
    then show ?thesis using upd [of AtTaskDone] upd [of Died]
      by (auto simp: worker_step_unfold remaining_def split: option.splits)
  next
    case AtTaskDone
    then show ?thesis using upd [of AtGet] upd [of Died]
      by (auto simp: worker_step_unfold remaining_def)
  next
    case Exited
    with a show ?thesis by simp
  next
    case Died
    with a show ?thesis by simp
  qed
qed

function run ::
  "env \<Rightarrow> string \<Rightarrow> int \<Rightarrow> (nat \<Rightarrow> nat) \<Rightarrow> nat option \<Rightarrow> nat \<Rightarrow> scan_state \<Rightarrow> scan_state" where
  "run en ip total_ports sched intr k st =
     (let ready = alive (workers st) in
      if ready = [] \<or> intr = Some k then st
      else run en ip total_ports sched intr (Suc k)
             (worker_step en ip total_ports (ready ! (sched k mod length ready)) st))"
  by pat_completeness auto
termination
proof (relation "measure (\<lambda>(en, ip, total_ports, sched, intr, k, st). remaining st)")
  show "wf (measure (\<lambda>(en, ip, total_ports, sched, intr, k, st). remaining st))" by simp
next
  fix en :: env and ip :: string and total_ports :: int and sched :: "nat \<Rightarrow> nat"
    and intr :: "nat option" and k :: nat and st :: scan_state and ready
  assume r: "ready = alive (workers st)" and n: "\<not> (ready = [] \<or> intr = Some k)"
  then have "ready ! (sched k mod length ready) \<in> set (alive (workers st))"
    by simp
  then show "((en, ip, total_ports, sched, intr, Suc k,
                worker_step en ip total_ports (ready ! (sched k mod length ready)) st),
              (en, ip, total_ports, sched, intr, k, st))
            \<in> measure (\<lambda>(en, ip, total_ports, sched, intr, k, st). remaining st)"
    by (simp add: worker_step_decreases)
qed


subsection \<open>scan_ports\<close>

text \<open>
  The main thread fills the queue, starts the threads, and waits in \<open>queue.join()\<close>
  and then in \<open>thread.join()\<close>: it returns once no task is unfinished and no thread
  runs. When the threads have all stopped and a task is still unfinished, it waits for
  ever (\<open>Blocked\<close>) unless the interrupt ends the wait.
\<close>

datatype 'a outcome = Returns 'a | Raises exn | Blocked

definition initial :: "int \<Rightarrow> int \<Rightarrow> int \<Rightarrow> scan_state" where
  "initial start_port end_port num_threads =
     (let total_ports = end_port - start_port + 1;
          actual_threads = min num_threads total_ports
      in \<lparr> queue = [start_port..end_port],
           unfinished_tasks = length [start_port..end_port],
           open_ports = [],
           progress_counter = 0,
           workers = replicate (nat actual_threads) AtGet,
           probed = [] \<rparr>)"

definition scan_run ::
  "env \<Rightarrow> (nat \<Rightarrow> nat) \<Rightarrow> nat option \<Rightarrow> string \<Rightarrow> int \<Rightarrow> int \<Rightarrow> int \<Rightarrow> scan_state" where
  "scan_run en sched intr ip start_port end_port num_threads =
     run en ip (end_port - start_port + 1) sched intr 0
       (initial start_port end_port num_threads)"

definition joined :: "scan_state \<Rightarrow> bool" where
  "joined st = (unfinished_tasks st = 0 \<and> alive (workers st) = [])"

definition scan_ports ::
  "env \<Rightarrow> (nat \<Rightarrow> nat) \<Rightarrow> nat option \<Rightarrow> string \<Rightarrow> int \<Rightarrow> int \<Rightarrow> int
     \<Rightarrow> (int \<times> string) list outcome" where
  "scan_ports en sched intr ip start_port end_port num_threads =
     (let st = scan_run en sched intr ip start_port end_port num_threads in
      if joined st then Returns (sort (open_ports st))
      else if intr \<noteq> None then Raises KeyboardInterrupt
      else Blocked)"

subsection \<open>main\<close>

text \<open>
  The output is the list of the strings printed, one for each call of \<open>print\<close>. The
  duration arrives already formatted. \<open>open_w\<close> is \<open>open(path, 'w')\<close> and
  \<open>str_exn\<close> is \<open>str(e)\<close>. The report is written when \<open>args.output\<close> is given and
  not empty. \<open>scan\<close> is the state of the scan when main ends, and is \<open>None\<close> when
  \<open>scan_ports\<close> was never called. The interrupt is one that arrives during
  \<open>scan_ports\<close>.
\<close>

fun str_nat :: "nat \<Rightarrow> string" where
  "str_nat n =
     (if n < 10 then [char_of (48 + n)]
      else str_nat (n div 10) @ [char_of (48 + n mod 10)])"

definition str_int :: "int \<Rightarrow> string" where
  "str_int i = (if i < 0 then CHR ''-'' # str_nat (nat (- i)) else str_nat (nat i))"

definition ljust :: "nat \<Rightarrow> string \<Rightarrow> string" where
  "ljust width s = s @ replicate (width - length s) CHR '' ''"

definition nl :: string where
  "nl = [CHR 0x0A]"

definition print_results :: "string \<Rightarrow> string \<Rightarrow> (int \<times> string) list \<Rightarrow> string \<Rightarrow> string list" where
  "print_results target ip open_ports' duration =
     [nl @ replicate 70 CHR ''='',
      ''Scan Results for '' @ target,
      ''Scan duration: '' @ duration @ '' seconds'',
      replicate 70 CHR ''='' @ nl]
     @ (if open_ports' \<noteq> [] then
          [''Found '' @ str_nat (length open_ports') @ '' open ports:'' @ nl,
           ljust 10 ''PORT'' @ ljust 20 ''SERVICE'',
           replicate 30 CHR ''-'']
          @ map (\<lambda>(port, service). ljust 10 (str_int port) @ ljust 20 service) open_ports'
        else [''No open ports found''])
     @ [[]]"

record args =
  arg_target :: string
  arg_start :: int
  arg_end :: int
  arg_threads :: int
  arg_output :: "string option"

record main_result =
  stdout :: "string list"
  report :: "(string \<times> string list) option"
  scan :: "scan_state option"
  ending :: "unit outcome"

definition handlers :: "(exn \<Rightarrow> string) \<Rightarrow> exn \<Rightarrow> string list \<Rightarrow> scan_state option \<Rightarrow> main_result" where
  "handlers str_exn e out sc =
     (if e = GaiError then
        \<lparr> stdout = out @ [''Error: Could not resolve hostname''],
          report = None, scan = sc, ending = Returns () \<rparr>
      else if e = KeyboardInterrupt then
        \<lparr> stdout = out @ [nl @ ''Scan interrupted by user''],
          report = None, scan = sc, ending = Returns () \<rparr>
      else if is_Exception e then
        \<lparr> stdout = out @ [''An error occurred: '' @ str_exn e],
          report = None, scan = sc, ending = Returns () \<rparr>
      else \<lparr> stdout = out, report = None, scan = sc, ending = Raises e \<rparr>)"

definition report_lines :: "string \<Rightarrow> string \<Rightarrow> (int \<times> string) list \<Rightarrow> string \<Rightarrow> string list" where
  "report_lines target ip open_ports' duration =
     [''Scan Results for '' @ target @ '' ('' @ ip @ '')'' @ nl,
      ''Duration: '' @ duration @ '' seconds'' @ nl @ nl]
     @ (if open_ports' \<noteq> [] then
          (''Open ports:'' @ nl)
          # map (\<lambda>(port, service). ''Port '' @ str_int port @ '': '' @ service @ nl) open_ports'
        else [''No open ports found'' @ nl])"

definition main ::
  "env \<Rightarrow> (string \<Rightarrow> exn option) \<Rightarrow> (exn \<Rightarrow> string) \<Rightarrow> string
     \<Rightarrow> (nat \<Rightarrow> nat) \<Rightarrow> nat option \<Rightarrow> args \<Rightarrow> main_result" where
  "main en open_w str_exn duration sched intr a =
     (case gethostbyname en (arg_target a) of
        Inl e \<Rightarrow> handlers str_exn e [] None
      | Inr ip \<Rightarrow>
          (let out =
                 [nl @ ''Starting Less Basic Port Scanner'',
                  ''Target: '' @ arg_target a @ '' ('' @ ip @ '')'',
                  ''Port range:'' @ str_int (arg_start a) @ ''-'' @ str_int (arg_end a),
                  ''Threads: '' @ str_int (arg_threads a),
                  ''Timeout 1.0 seconds'' @ nl];
               st = scan_run en sched intr ip (arg_start a) (arg_end a) (arg_threads a)
           in case scan_ports en sched intr ip (arg_start a) (arg_end a) (arg_threads a) of
                Blocked \<Rightarrow> \<lparr> stdout = out, report = None, scan = Some st, ending = Blocked \<rparr>
              | Raises e \<Rightarrow> handlers str_exn e out (Some st)
              | Returns open_ports' \<Rightarrow>
                  (let out' = out @ print_results (arg_target a) ip open_ports' duration;
                       done = \<lparr> stdout = out', report = None, scan = Some st,
                                ending = Returns () \<rparr>
                   in case arg_output a of
                     None \<Rightarrow> done
                   | Some path \<Rightarrow>
                       if path = [] then done
                       else
                         (case open_w path of
                            Some e \<Rightarrow> handlers str_exn e out' (Some st)
                          | None \<Rightarrow>
                              \<lparr> stdout = out',
                                report = Some (path,
                                  report_lines (arg_target a) ip open_ports' duration),
                                scan = Some st, ending = Returns () \<rparr>))))"

text \<open>A schedule that takes the running threads in turn.\<close>

definition round_robin :: "nat \<Rightarrow> nat" where
  "round_robin k = k"

text \<open>A host like \<open>host80\<close> on which the probes of two ports raise socket errors.\<close>

definition flaky80 :: env where
  "flaky80 =
     host80\<lparr> socket_new := (\<lambda>port. if port = 82 then Some OSError else None),
             connect_ex := (\<lambda>ip port. if port = 81 then Inl GaiError
                                        else connect_ex host80 ip port) \<rparr>"

subsection \<open>What one probe does\<close>

text \<open>
  A port is reachable when the socket of its probe is created and the connect returns 0.
  \<open>scan_exn\<close> is the exception that leaves the probe of a port and \<open>recorded\<close> what the
  probe appends to \<open>open_ports\<close>; \<open>expected\<close> is what the probes of a range append when
  they are made in ascending order. \<open>only_socket_errors\<close> says that each library call
  of the probe of a port returns or raises a socket error.
\<close>

definition reachable :: "env \<Rightarrow> string \<Rightarrow> int \<Rightarrow> bool" where
  "reachable en ip port \<longleftrightarrow> socket_new en port = None \<and> connect_ex en ip port = Inr 0"

definition only_socket_errors :: "env \<Rightarrow> string \<Rightarrow> int \<Rightarrow> bool" where
  "only_socket_errors en ip port \<longleftrightarrow>
     (case socket_new en port of None \<Rightarrow> True | Some x \<Rightarrow> is_socket_error x)
     \<and> (case connect_ex en ip port of Inr c \<Rightarrow> True | Inl x \<Rightarrow> is_socket_error x)
     \<and> (case getservbyport en port of Inr n \<Rightarrow> True | Inl x \<Rightarrow> is_socket_error x)"

definition scan_exn :: "env \<Rightarrow> string \<Rightarrow> int \<Rightarrow> exn option" where
  "scan_exn en ip port = fst (scan_port en ip port [])"

definition recorded :: "env \<Rightarrow> string \<Rightarrow> int \<Rightarrow> (int \<times> string) list" where
  "recorded en ip port = fst (snd (scan_port en ip port []))"

definition expected :: "env \<Rightarrow> string \<Rightarrow> int \<Rightarrow> int \<Rightarrow> (int \<times> string) list" where
  "expected en ip start_port end_port = concat (map (recorded en ip) [start_port..end_port])"

subsection \<open>Accounting of a run\<close>

text \<open>
  The invariants of the run count the threads by their control point: a thread holds a
  task from the moment it took a port until \<open>task_done\<close>, and a thread that died keeps
  it for ever.
\<close>

fun holding :: "wstate \<Rightarrow> nat" where
  "holding AtGet = 0"
| "holding Exited = 0"
| "holding _ = 1"

fun inflight :: "wstate \<Rightarrow> int multiset" where
  "inflight (AtScan p) = {#p#}"
| "inflight _ = {#}"

fun exited1 :: "wstate \<Rightarrow> nat" where
  "exited1 Exited = 1"
| "exited1 _ = 0"

fun died1 :: "wstate \<Rightarrow> nat" where
  "died1 Died = 1"
| "died1 _ = 0"

fun atprog :: "wstate \<Rightarrow> nat" where
  "atprog AtProgress = 1"
| "atprog _ = 0"

definition inv_tasks :: "scan_state \<Rightarrow> bool" where
  "inv_tasks st \<longleftrightarrow>
     unfinished_tasks st = length (queue st) + sum_list (map holding (workers st))"

definition inv_ports :: "int \<Rightarrow> int \<Rightarrow> scan_state \<Rightarrow> bool" where
  "inv_ports s e st \<longleftrightarrow>
     mset (map snd (probed st)) + mset (queue st) + sum_list (map inflight (workers st))
       = mset [s..e]"

definition inv_open :: "env \<Rightarrow> string \<Rightarrow> scan_state \<Rightarrow> bool" where
  "inv_open en ip st \<longleftrightarrow>
     open_ports st = concat (map (recorded en ip) (map snd (probed st)))"

definition inv_exit :: "scan_state \<Rightarrow> bool" where
  "inv_exit st \<longleftrightarrow> (0 < sum_list (map exited1 (workers st)) \<longrightarrow> queue st = [])"


definition inv_healthy :: "int \<Rightarrow> int \<Rightarrow> scan_state \<Rightarrow> bool" where
  "inv_healthy s e st \<longleftrightarrow>
     inv_tasks st \<and> inv_ports s e st \<and> sum_list (map died1 (workers st)) = 0
     \<and> progress_counter st + int (sum_list (map atprog (workers st))) = int (length (probed st))"

section \<open>Invariants of the run\<close>

declare run.simps [simp del]

lemma scan_port_eq:
  "scan_port en ip port ops =
     (scan_exn en ip port, ops @ recorded en ip port, snd (snd (scan_port en ip port [])))"
  by (simp add: scan_port_def scan_exn_def recorded_def split: option.splits sum.splits)

lemma run_invariant:
  assumes "P st"
    and "\<And>st i. P st \<Longrightarrow> i < length (workers st) \<Longrightarrow> is_alive (workers st ! i)
           \<Longrightarrow> P (worker_step en ip tp i st)"
  shows "P (run en ip tp sched intr k st)"
  using assms
proof (induction en ip tp sched intr k st rule: run.induct)
  case (1 en ip tp sched intr k st)
  let ?ready = "alive (workers st)"
  show ?case
  proof (cases "?ready = [] \<or> intr = Some k")
    case True
    then show ?thesis using "1.prems"(1) by (subst run.simps) (auto simp: Let_def)
  next
    case False
    let ?i = "?ready ! (sched k mod length ?ready)"
    have "?i \<in> set ?ready" using False by simp
    then have "P (worker_step en ip tp ?i st)"
      using "1.prems" alive_D by blast
    then have "P (run en ip tp sched intr (Suc k) (worker_step en ip tp ?i st))"
      using "1.IH" [OF refl False] "1.prems"(2) by blast
    then show ?thesis using False by (subst run.simps) (simp add: Let_def)
  qed
qed

lemma run_stops:
  "alive (workers (run en ip tp sched None k st)) = []"
proof (induction en ip tp sched "None :: nat option" k st rule: run.induct)
  case (1 en ip tp sched k st)
  show ?case
  proof (cases "alive (workers st) = []")
    case True
    then show ?thesis by (subst run.simps) (simp add: Let_def)
  next
    case False
    then show ?thesis using "1.hyps" [OF refl] by (subst run.simps) (simp add: Let_def)
  qed
qed

lemma worker_step_AtScan:
  assumes "workers st ! i = AtScan p"
  shows "worker_step en ip tp i st =
    st\<lparr>open_ports := open_ports st @ recorded en ip p,
       probed := probed st @ [(i, p)],
       workers := (workers st)[i := (if scan_exn en ip p = None then AtProgress else Died)]\<rparr>"
  using assms scan_port_eq [of en ip p "open_ports st"]
  by (auto simp: worker_step_unfold split: option.splits)

lemma step_tasks:
  assumes "inv_tasks st" "i < length (workers st)"
  shows "inv_tasks (worker_step en ip tp i st)"
proof -
  have upd: "\<And>w. sum_list (map holding ((workers st)[i := w])) + holding (workers st ! i)
      = sum_list (map holding (workers st)) + holding w"
    using assms(2) by (rule sum_list_map_update)
  show ?thesis
  proof (cases "workers st ! i")
    case AtGet
    then show ?thesis using assms(1) upd [of Exited] upd [of "AtScan (hd (queue st))"]
      by (auto simp: worker_step_unfold inv_tasks_def split: list.splits)
  next
    case (AtScan p)
    then show ?thesis using assms(1) upd [of AtProgress] upd [of Died]
      by (auto simp: worker_step_unfold inv_tasks_def split: prod.splits option.splits)
  next
    case AtProgress
    then show ?thesis using assms(1) upd [of AtTaskDone] upd [of Died]
      by (auto simp: worker_step_unfold inv_tasks_def split: option.splits)
  next
    case AtTaskDone
    then show ?thesis using assms(1) upd [of AtGet] upd [of Died]
      by (auto simp: worker_step_unfold inv_tasks_def)
  qed (simp_all add: worker_step_unfold assms(1))
qed

lemma step_ports:
  assumes "inv_ports s e st" "i < length (workers st)"
  shows "inv_ports s e (worker_step en ip tp i st)"
proof -
  have upd: "\<And>w. sum_list (map inflight ((workers st)[i := w])) + inflight (workers st ! i)
      = sum_list (map inflight (workers st)) + inflight w"
    using assms(2) by (rule sum_list_map_update)
  show ?thesis
  proof (cases "workers st ! i")
    case AtGet
    then show ?thesis using assms(1) upd [of Exited] upd [of "AtScan (hd (queue st))"]
      by (auto simp: worker_step_unfold inv_ports_def split: list.splits)
  next
    case (AtScan p)
    define w where "w = (if scan_exn en ip p = None then AtProgress else Died)"
    have "inflight w = {#}" by (simp add: w_def)
    then have old: "sum_list (map inflight (workers st))
        = add_mset p (sum_list (map inflight ((workers st)[i := w])))"
      using upd [of w] AtScan by simp
    show ?thesis using assms(1)
      by (simp add: worker_step_AtScan [OF AtScan] w_def [symmetric] inv_ports_def old)
  next
    case AtProgress
    then show ?thesis using assms(1) upd [of AtTaskDone] upd [of Died]
      by (auto simp: worker_step_unfold inv_ports_def split: option.splits)
  next
    case AtTaskDone
    then show ?thesis using assms(1) upd [of AtGet] upd [of Died]
      by (auto simp: worker_step_unfold inv_ports_def)
  qed (simp_all add: worker_step_unfold assms(1))
qed

lemma step_open:
  assumes "inv_open en ip st"
  shows "inv_open en ip (worker_step en ip tp i st)"
proof (cases "workers st ! i")
  case (AtScan p)
  then show ?thesis using assms scan_port_eq [of en ip p "open_ports st"]
    by (auto simp: worker_step_unfold inv_open_def split: prod.splits option.splits)
qed (use assms in \<open>auto simp: worker_step_unfold inv_open_def split: list.splits option.splits\<close>)

lemma step_exit:
  assumes "inv_exit st" "i < length (workers st)" "is_alive (workers st ! i)"
  shows "inv_exit (worker_step en ip tp i st)"
proof -
  have "exited1 (workers st ! i) = 0"
    using assms(3) by (cases "workers st ! i") simp_all
  then have new: "\<And>w. sum_list (map exited1 ((workers st)[i := w]))
      = sum_list (map exited1 (workers st)) + exited1 w"
    using sum_list_map_update [OF assms(2), of exited1] by simp
  show ?thesis
  proof (cases "workers st ! i")
    case AtGet
    then show ?thesis using assms(1)
      by (auto simp: worker_step_unfold inv_exit_def new split: list.splits)
  next
    case (AtScan p)
    then show ?thesis using assms(1)
      by (simp add: worker_step_unfold inv_exit_def new split: prod.splits option.splits)
  next
    case AtProgress
    then show ?thesis using assms(1)
      by (simp add: worker_step_unfold inv_exit_def new split: option.splits)
  next
    case AtTaskDone
    then show ?thesis using assms(1)
      by (simp add: worker_step_unfold inv_exit_def new)
  qed (simp_all add: worker_step_unfold assms(1))
qed

lemma step_length:
  "length (workers (worker_step en ip tp i st)) = length (workers st)"
  by (cases "workers st ! i")
     (auto simp: worker_step_unfold split: list.splits prod.splits option.splits)

lemma run_length:
  "length (workers (run en ip tp sched intr k st)) = length (workers st)"
  by (rule run_invariant [where P = "\<lambda>x. length (workers x) = length (workers st)"])
     (simp_all add: step_length)

lemma sum_list_replicate_zero:
  "sum_list (replicate n (0 :: 'a :: monoid_add)) = 0"
  by (induction n) simp_all

lemma sum_list_replicate_empty:
  "sum_list (replicate n ({#} :: 'a multiset)) = {#}"
  by (induction n) simp_all

lemma initial_tasks: "inv_tasks (initial s e t)"
  by (simp add: inv_tasks_def initial_def Let_def sum_list_replicate_zero)

lemma initial_ports: "inv_ports s e (initial s e t)"
  by (simp add: inv_ports_def initial_def Let_def sum_list_replicate_empty)

lemma initial_open: "inv_open en ip (initial s e t)"
  by (simp add: inv_open_def initial_def Let_def)

lemma initial_exit: "inv_exit (initial s e t)"
  by (simp add: inv_exit_def initial_def Let_def sum_list_replicate_zero)

lemma run_tasks: "inv_tasks (scan_run en sched intr ip s e t)"
  unfolding scan_run_def
  by (rule run_invariant) (simp_all add: initial_tasks step_tasks)

lemma run_ports: "inv_ports s e (scan_run en sched intr ip s e t)"
  unfolding scan_run_def
  by (rule run_invariant) (simp_all add: initial_ports step_ports)

lemma run_open: "inv_open en ip (scan_run en sched intr ip s e t)"
  unfolding scan_run_def
  by (rule run_invariant) (simp_all add: initial_open step_open)

lemma run_exit: "inv_exit (scan_run en sched intr ip s e t)"
  unfolding scan_run_def
  by (rule run_invariant) (simp_all add: initial_exit step_exit)

lemma alive_Nil_iff: "alive ws = [] \<longleftrightarrow> (\<forall>w \<in> set ws. \<not> is_alive w)"
  by (auto simp: alive_def filter_empty_conv all_set_conv_all_nth)

lemma holding_zero_inflight:
  "sum_list (map holding ws) = 0 \<Longrightarrow> sum_list (map inflight ws) = {#}"
proof (induction ws)
  case (Cons w ws)
  then show ?case by (cases w) simp_all
qed simp

lemma holding_zero_died:
  "sum_list (map holding ws) = 0 \<Longrightarrow> sum_list (map died1 ws) = 0"
proof (induction ws)
  case (Cons w ws)
  then show ?case by (cases w) simp_all
qed simp

lemma stopped_no_death:
  assumes "\<forall>w \<in> set ws. \<not> is_alive w" "sum_list (map died1 ws) = 0"
  shows "sum_list (map holding ws) = 0 \<and> sum_list (map exited1 ws) = length ws"
  using assms
proof (induction ws)
  case (Cons w ws)
  then show ?case by (cases w) simp_all
qed simp

lemma mset_concat_map:
  "mset (concat (map f xs)) = (\<Sum>x \<in># mset xs. mset (f x))"
  by (induction xs) simp_all

lemma recorded_cases:
  "recorded en ip p = [] \<or>
   (\<exists>n. recorded en ip p = [(p, n)] \<and> socket_new en p = None
        \<and> connect_ex en ip p = Inr 0 \<and> get_service_name en p = Inr n)"
  by (simp add: recorded_def scan_port_def split: option.splits sum.splits)

lemma fst_recorded: "x \<in> set (recorded en ip p) \<Longrightarrow> fst x = p"
  using recorded_cases [of en ip p] by auto

lemma sorted_wrt_recorded:
  "sorted_wrt (<) ps \<Longrightarrow>
     sorted_wrt (\<lambda>a b. fst a < fst b) (concat (map (recorded en ip) ps))"
proof (induction ps)
  case (Cons p ps)
  have "sorted_wrt (\<lambda>a b. fst a < fst b) (recorded en ip p)"
    using recorded_cases [of en ip p] by auto
  moreover have "\<forall>x \<in> set (recorded en ip p). \<forall>y \<in> set (concat (map (recorded en ip) ps)).
      fst x < fst y"
    using Cons.prems by (auto dest!: fst_recorded)
  ultimately show ?case using Cons by (simp add: sorted_wrt_append)
qed simp

lemma expected_strict: "sorted_wrt (\<lambda>a b. fst a < fst b) (expected en ip s e)"
  unfolding expected_def by (rule sorted_wrt_recorded) simp

lemma expected_sorted: "sorted (expected en ip s e)"
  by (rule sorted_wrt_mono_rel [OF _ expected_strict]) (simp add: less_eq_prod_def)

lemma joined_result:
  assumes "joined (scan_run en sched intr ip s e t)"
  shows "mset (map snd (probed (scan_run en sched intr ip s e t))) = mset [s..e]"
    and "sort (open_ports (scan_run en sched intr ip s e t)) = expected en ip s e"
    and "queue (scan_run en sched intr ip s e t) = []"
    and "sum_list (map died1 (workers (scan_run en sched intr ip s e t))) = 0"
proof -
  let ?st = "scan_run en sched intr ip s e t"
  from assms run_tasks [of en sched intr ip s e t]
  have q: "queue ?st = []" and h: "sum_list (map holding (workers ?st)) = 0"
    by (simp_all add: joined_def inv_tasks_def)
  show "queue ?st = []" by (rule q)
  show "sum_list (map died1 (workers ?st)) = 0" using h by (rule holding_zero_died)
  show p: "mset (map snd (probed ?st)) = mset [s..e]"
    using run_ports [of s e en sched intr ip t] q holding_zero_inflight [OF h]
    by (simp add: inv_ports_def)
  have "open_ports ?st = concat (map (recorded en ip) (map snd (probed ?st)))"
    using run_open [of en ip sched intr s e t] by (simp add: inv_open_def)
  then have "mset (open_ports ?st) = mset (expected en ip s e)"
    unfolding expected_def by (simp only: mset_concat_map p)
  then show "sort (open_ports ?st) = expected en ip s e"
    using expected_sorted by (simp add: properties_for_sort)
qed

lemma nth_le_sum_list:
  fixes f :: "'a \<Rightarrow> nat"
  shows "i < length ws \<Longrightarrow> f (ws ! i) \<le> sum_list (map f ws)"
  by (simp add: member_le_sum_list)

lemma nth_inflight:
  assumes "i < length ws" "ws ! i = AtScan p"
  shows "p \<in># sum_list (map inflight ws)"
proof -
  have "sum_list (map inflight (ws[i := Exited])) + inflight (ws ! i)
      = sum_list (map inflight ws) + inflight Exited"
    using assms(1) by (rule sum_list_map_update)
  then have "sum_list (map inflight ws) = add_mset p (sum_list (map inflight (ws[i := Exited])))"
    using assms(2) by simp
  then show ?thesis by simp
qed

lemma stopped_atprog: "\<not> is_alive w \<Longrightarrow> atprog w = 0"
  by (cases w) simp_all

lemma step_healthy:
  assumes inv: "inv_healthy s e st"
    and i: "i < length (workers st)" and a: "is_alive (workers st ! i)"
    and tp: "tp \<noteq> 0" and nf: "\<forall>p \<in> {s..e}. scan_exn en ip p = None"
  shows "inv_healthy s e (worker_step en ip tp i st)"
proof -
  from inv have t: "inv_tasks st" and p: "inv_ports s e st"
    and d: "sum_list (map died1 (workers st)) = 0"
    and c: "progress_counter st + int (sum_list (map atprog (workers st))) = int (length (probed st))"
    by (simp_all add: inv_healthy_def)
  have "died1 (workers st ! i) = 0"
    using a by (cases "workers st ! i") simp_all
  then have dnew: "\<And>w. sum_list (map died1 ((workers st)[i := w])) = died1 w"
    using sum_list_map_update [OF i, of died1] d by simp
  have cupd: "\<And>w. sum_list (map atprog ((workers st)[i := w])) + atprog (workers st ! i)
      = sum_list (map atprog (workers st)) + atprog w"
    using i by (rule sum_list_map_update)
  have "sum_list (map died1 (workers (worker_step en ip tp i st))) = 0
      \<and> progress_counter (worker_step en ip tp i st)
          + int (sum_list (map atprog (workers (worker_step en ip tp i st))))
        = int (length (probed (worker_step en ip tp i st)))"
  proof (cases "workers st ! i")
    case AtGet
    then show ?thesis using c cupd [of Exited] cupd [of "AtScan (hd (queue st))"]
      by (auto simp: worker_step_unfold dnew split: list.splits simp del: sum_list_eq_0_iff)
  next
    case (AtScan q)
    have "q \<in># mset (map snd (probed st)) + mset (queue st)
        + sum_list (map inflight (workers st))"
      by (intro union_iff [THEN iffD2] disjI2) (rule nth_inflight [OF i AtScan])
    then have "q \<in># mset [s..e]"
      using p by (simp only: inv_ports_def)
    then have "scan_exn en ip q = None" using nf by simp
    then show ?thesis using c cupd [of AtProgress] AtScan
      by (simp add: worker_step_AtScan [OF AtScan] dnew del: sum_list_eq_0_iff)
  next
    case AtProgress
    then show ?thesis using c cupd [of AtTaskDone] tp
      by (simp add: worker_step_unfold print_progress_def dnew del: sum_list_eq_0_iff)
  next
    case AtTaskDone
    then have "1 \<le> sum_list (map holding (workers st))"
      using nth_le_sum_list [OF i, of holding] by simp
    then have "unfinished_tasks st \<noteq> 0"
      using t unfolding inv_tasks_def by linarith
    then show ?thesis using c cupd [of AtGet] AtTaskDone
      by (simp add: worker_step_unfold dnew del: sum_list_eq_0_iff)
  next
    case Exited
    with a show ?thesis by simp
  next
    case Died
    with a show ?thesis by simp
  qed
  then show ?thesis
    using step_tasks [OF t i] step_ports [OF p i] by (simp add: inv_healthy_def)
qed

lemma initial_healthy: "inv_healthy s e (initial s e t)"
  using initial_tasks [of s e t] initial_ports [of s e t]
  by (simp add: inv_healthy_def) (simp add: initial_def Let_def sum_list_replicate_zero)

lemma run_healthy:
  assumes "s \<le> e" "\<forall>p \<in> {s..e}. scan_exn en ip p = None"
  shows "inv_healthy s e (scan_run en sched intr ip s e t)"
  unfolding scan_run_def
proof (rule run_invariant)
  show "inv_healthy s e (initial s e t)" by (rule initial_healthy)
next
  fix st i
  assume "inv_healthy s e st" "i < length (workers st)" "is_alive (workers st ! i)"
  then show "inv_healthy s e (worker_step en ip (e - s + 1) i st)"
    using assms by (intro step_healthy) simp_all
qed

lemma scan_completes:
  assumes "s \<le> e" "1 \<le> t" "\<forall>p \<in> {s..e}. scan_exn en ip p = None"
  shows "joined (scan_run en sched None ip s e t)"
    and "progress_counter (scan_run en sched None ip s e t) = e - s + 1"
proof -
  let ?st = "scan_run en sched None ip s e t"
  have stop: "alive (workers ?st) = []"
    unfolding scan_run_def by (rule run_stops)
  have h: "inv_healthy s e ?st" using assms(1,3) by (rule run_healthy)
  have len: "length (workers ?st) = nat (min t (e - s + 1))"
    unfolding scan_run_def by (simp add: run_length) (simp add: initial_def Let_def)
  from h stop have nd: "sum_list (map holding (workers ?st)) = 0"
    and ex: "sum_list (map exited1 (workers ?st)) = length (workers ?st)"
    using stopped_no_death [of "workers ?st"] by (simp_all add: alive_Nil_iff inv_healthy_def)
  have "0 < length (workers ?st)" using len assms(1,2) by simp
  then have q: "queue ?st = []"
    using run_exit [of en sched None ip s e t] ex by (simp add: inv_exit_def)
  then show j: "joined ?st"
    using h nd stop by (simp add: joined_def inv_healthy_def inv_tasks_def)
  have "sum_list (map atprog (workers ?st)) = 0"
    using stop by (auto simp: alive_Nil_iff intro: stopped_atprog)
  moreover have "length (probed ?st) = length [s..e]"
    using joined_result(1) [OF j] by (metis length_map size_mset)
  ultimately show "progress_counter ?st = e - s + 1"
    using h assms(1) by (simp add: inv_healthy_def del: sum_list_eq_0_iff)
qed



lemma recorded_eq:
  "recorded en ip p =
     (if reachable en ip p
      then (case get_service_name en p of Inr n \<Rightarrow> [(p, n)] | Inl x \<Rightarrow> [])
      else [])"
  by (simp add: recorded_def scan_port_def reachable_def split: option.splits sum.splits)

lemma only_socket_errors_scan_exn:
  "only_socket_errors en ip p \<Longrightarrow> scan_exn en ip p = None"
  by (auto simp: only_socket_errors_def scan_exn_def scan_port_def get_service_name_def
      split: option.splits sum.splits if_splits)

lemma scan_ports_Returns:
  assumes "scan_ports en sched intr ip s e t = Returns r"
  shows "joined (scan_run en sched intr ip s e t)" and "r = expected en ip s e"
proof -
  show j: "joined (scan_run en sched intr ip s e t)"
    using assms by (simp add: scan_ports_def Let_def split: if_splits)
  then show "r = expected en ip s e"
    using assms joined_result(2) [OF j] by (simp add: scan_ports_def Let_def)
qed


lemma expected_member:
  assumes "(p, name) \<in> set (expected en ip s e)"
  shows "s \<le> p \<and> p \<le> e \<and> reachable en ip p \<and> get_service_name en p = Inr name"
proof -
  from assms obtain q where q: "q \<in> {s..e}" "(p, name) \<in> set (recorded en ip q)"
    by (auto simp: expected_def)
  from q(2) have "reachable en ip q \<and> get_service_name en q = Inr name \<and> p = q"
    by (cases "reachable en ip q"; cases "get_service_name en q") (simp_all add: recorded_eq)
  with q(1) show ?thesis by simp
qed

lemma died_counted: "Died \<in> set ws \<Longrightarrow> sum_list (map died1 ws) \<noteq> 0"
  by (induction ws) auto

lemma run_no_workers:
  "workers st = [] \<Longrightarrow> run en ip tp sched intr k st = st"
  by (subst run.simps) (simp add: alive_def)

section \<open>Properties\<close>

subsection \<open>Every port is probed once\<close>



subsection \<open>The result holds reachable ports only, in ascending order\<close>

text \<open>
  C2. Whenever \<open>scan_ports\<close> returns a list, every entry of it is a port of the range
  whose probe created its socket and whose connect returned 0, with the name that
  \<open>get_service_name\<close> gives; no port occurs twice and the ports ascend.
\<close>

theorem result_only_reachable_sorted:
  assumes "scan_ports en sched intr ip s e t = Returns r"
  shows "(\<forall>(p, name) \<in> set r. s \<le> p \<and> p \<le> e \<and> reachable en ip p
            \<and> get_service_name en p = Inr name)
    \<and> distinct (map fst r) \<and> sorted (map fst r)"
proof -
  have r: "r = expected en ip s e" by (rule scan_ports_Returns(2) [OF assms])
  have strict: "sorted_wrt (<) (map fst r)"
    using expected_strict [of en ip s e] by (simp add: r sorted_wrt_map)
  then have "distinct (map fst r) \<and> sorted (map fst r)"
    by (simp add: strict_sorted_iff)
  moreover have "\<forall>(p, name) \<in> set r. s \<le> p \<and> p \<le> e \<and> reachable en ip p
      \<and> get_service_name en p = Inr name"
    using expected_member [of _ _ en ip s e] by (auto simp: r)
  ultimately show ?thesis by blast
qed

theorem result_only_reachable_sorted_witness:
  "scan_ports host80 round_robin None ''127.0.0.1'' 79 81 2 = Returns [(80, ''http'')]
   \<and> reachable host80 ''127.0.0.1'' 80"
proof -
  have r: "scan_ports host80 round_robin None ''127.0.0.1'' 79 81 2 = Returns [(80, ''http'')]"
    by code_simp
  show ?thesis using result_only_reachable_sorted [OF r] r by simp
qed

subsection \<open>The number of threads\<close>

text \<open>
  C3. For a thread count \<open>t \<ge> 1\<close> and a range \<open>s \<le> e\<close> the number of threads of the
  scan is \<open>min t (e - s + 1)\<close>, hence at most the number of ports.
\<close>

theorem worker_count_is_min:
  assumes "1 \<le> t" and "s \<le> e"
  shows "int (length (workers (scan_run en sched intr ip s e t))) = min t (e - s + 1)
    \<and> int (length (workers (scan_run en sched intr ip s e t))) \<le> e - s + 1"
  using assms by (simp add: scan_run_def run_length) (simp add: initial_def Let_def)

theorem worker_count_is_min_witness:
  "length (workers (scan_run host80 round_robin None ''127.0.0.1'' 1 10 100)) = 10"
  using worker_count_is_min [of 100 1 10 host80 round_robin None "''127.0.0.1''"]
  by simp

subsection \<open>A host name that does not resolve\<close>

text \<open>
  C4. When \<open>gethostbyname\<close> raises \<open>gaierror\<close>, main prints the error message and
  returns; \<open>scan_ports\<close> is never called, so there is no queue, no thread and no probe,
  and no report is written.
\<close>

theorem unresolved_host_aborts:
  assumes "gethostbyname en (arg_target a) = Inl GaiError"
  shows "main en open_w str_exn duration sched intr a =
    \<lparr> stdout = [''Error: Could not resolve hostname''],
      report = None, scan = None, ending = Returns () \<rparr>"
  using assms by (simp add: main_def handlers_def)

theorem unresolved_host_aborts_witness:
  "main host80 (\<lambda>path. None) (\<lambda>e. ''error'') ''0.42'' round_robin None
     \<lparr> arg_target = ''nohost'', arg_start = 1, arg_end = 1024, arg_threads = 100,
       arg_output = None \<rparr>
   = \<lparr> stdout = [''Error: Could not resolve hostname''],
       report = None, scan = None, ending = Returns () \<rparr>"
proof -
  have g: "gethostbyname host80
      (arg_target \<lparr> arg_target = ''nohost'', arg_start = 1, arg_end = 1024,
         arg_threads = 100, arg_output = None \<rparr>) = Inl GaiError"
    by (simp add: host80_def)
  show ?thesis by (rule unresolved_host_aborts [OF g])
qed

subsection \<open>Faults during a probe\<close>

text \<open>
  C5, as the code has it. When the only exceptions raised during the probes of the range
  are socket errors, they are caught in \<open>scan_port\<close>: no thread dies, every port of the
  range is probed, the scan returns, and a port that was not reachable is not in the
  result.
\<close>

theorem socket_errors_contained:
  assumes "s \<le> e" and "1 \<le> t"
    and "\<forall>p \<in> {s..e}. only_socket_errors en ip p"
  shows "\<exists>r. scan_ports en sched None ip s e t = Returns r
    \<and> (\<forall>p \<in> {s..e}. \<not> reachable en ip p \<longrightarrow> p \<notin> fst ` set r)
    \<and> Died \<notin> set (workers (scan_run en sched None ip s e t))
    \<and> set (map snd (probed (scan_run en sched None ip s e t))) = {s..e}"
proof -
  let ?st = "scan_run en sched None ip s e t"
  have nf: "\<forall>p \<in> {s..e}. scan_exn en ip p = None"
    using assms(3) by (simp add: only_socket_errors_scan_exn)
  have j: "joined ?st" by (rule scan_completes(1) [OF assms(1,2) nf])
  then have r: "scan_ports en sched None ip s e t = Returns (sort (open_ports ?st))"
    by (simp add: scan_ports_def Let_def)
  have ex: "sort (open_ports ?st) = expected en ip s e"
    by (rule joined_result(2) [OF j])
  have nr: "\<forall>p \<in> {s..e}. \<not> reachable en ip p \<longrightarrow> p \<notin> fst ` set (sort (open_ports ?st))"
    unfolding ex using expected_member [of _ _ en ip s e] by force
  have pr: "set (map snd (probed ?st)) = {s..e}"
    using mset_eq_setD [OF joined_result(1) [OF j]] by simp
  have nd: "Died \<notin> set (workers ?st)"
    using joined_result(4) [OF j] died_counted by blast
  show ?thesis using r nr nd pr by blast
qed

theorem socket_errors_contained_witness:
  "Died \<notin> set (workers (scan_run flaky80 round_robin None ''127.0.0.1'' 79 82 2))
   \<and> set (map snd (probed (scan_run flaky80 round_robin None ''127.0.0.1'' 79 82 2)))
       = {79..82}"
proof -
  have a: "\<forall>p \<in> {79..82}. only_socket_errors flaky80 ''127.0.0.1'' p"
    by (simp add: only_socket_errors_def flaky80_def host80_def)
  show ?thesis
    using socket_errors_contained [of 79 82 2 flaky80 "''127.0.0.1''" round_robin, OF _ _ a]
    by auto
qed

text \<open>
  The claim itself speaks of any fault. An exception that is not a socket error leaves
  \<open>scan_port\<close> and \<open>worker\<close>: at port 65536 the thread dies, its task is never marked
  done, and \<open>queue.join()\<close> never returns.
\<close>

theorem other_fault_blocks_scan:
  "scan_port host80 ''127.0.0.1'' 65536 [] = (Some OverflowError, [], [SockOpen])
   \<and> workers (scan_run host80 round_robin None ''127.0.0.1'' 65535 65536 2) = [Exited, Died]
   \<and> unfinished_tasks (scan_run host80 round_robin None ''127.0.0.1'' 65535 65536 2) = 1
   \<and> scan_ports host80 round_robin None ''127.0.0.1'' 65535 65536 2 = Blocked"
  by code_simp

subsection \<open>The socket of a probe\<close>

text \<open>
  C6. The claim is that every probe that opens its socket also closes it. At port 70000
  \<open>connect_ex\<close> raises, and the probe leaves its socket open: the only event is the
  opening, and the exception leaves \<open>scan_port\<close>.
\<close>

theorem scan_port_leaves_socket_open:
  "scan_port host80 ''127.0.0.1'' 70000 [] = (Some OverflowError, [], [SockOpen])"
  by (simp add: scan_port_def host80_def)

subsection \<open>Service names\<close>

text \<open>
  C7. For every port, when the service lookup either finds a name or signals the missing
  mapping (the socket error of \<open>getservbyport\<close>), \<open>get_service_name\<close> returns a string
  and raises nothing: the name found, or the literal \<open>unknown\<close>.
\<close>

theorem get_service_name_total:
  assumes "\<And>e. getservbyport en port = Inl e \<Longrightarrow> is_socket_error e"
  shows "get_service_name en port =
           Inr (case getservbyport en port of Inr name \<Rightarrow> name | Inl e \<Rightarrow> ''unknown'')"
  using assms by (cases "getservbyport en port") (simp_all add: get_service_name_def)

theorem get_service_name_total_witness:
  "get_service_name host80 80 = Inr ''http'' \<and> get_service_name host80 8080 = Inr ''unknown''"
proof -
  have a: "\<And>e. getservbyport host80 80 = Inl e \<Longrightarrow> is_socket_error e"
    by (simp add: host80_def)
  have b: "\<And>e. getservbyport host80 8080 = Inl e \<Longrightarrow> is_socket_error e"
    by (simp add: host80_def)
  show ?thesis
    using get_service_name_total [of host80 80, OF a] get_service_name_total [of host80 8080, OF b]
    by (simp add: host80_def)
qed

subsection \<open>An interrupt of the user\<close>

text \<open>
  C8, as the code has it. When the interrupt reaches \<open>scan_ports\<close>, main prints the
  lines of its start and the message of the interrupt, nothing else, writes no report,
  and returns normally.
\<close>

theorem interrupt_prints_message_only:
  assumes "gethostbyname en (arg_target a) = Inr ip"
    and "scan_ports en sched intr ip (arg_start a) (arg_end a) (arg_threads a)
           = Raises KeyboardInterrupt"
  shows "main en open_w str_exn duration sched intr a =
    \<lparr> stdout =
        [nl @ ''Starting Less Basic Port Scanner'',
         ''Target: '' @ arg_target a @ '' ('' @ ip @ '')'',
         ''Port range:'' @ str_int (arg_start a) @ ''-'' @ str_int (arg_end a),
         ''Threads: '' @ str_int (arg_threads a),
         ''Timeout 1.0 seconds'' @ nl,
         nl @ ''Scan interrupted by user''],
      report = None,
      scan = Some (scan_run en sched intr ip (arg_start a) (arg_end a) (arg_threads a)),
      ending = Returns () \<rparr>"
  using assms by (simp add: main_def handlers_def Let_def)

theorem interrupt_prints_message_only_witness:
  "ending (main host80 (\<lambda>path. None) (\<lambda>e. ''error'') ''0.42'' round_robin (Some 9)
     \<lparr> arg_target = ''localhost'', arg_start = 79, arg_end = 81, arg_threads = 2,
       arg_output = Some ''out.txt'' \<rparr>) = Returns ()
   \<and> report (main host80 (\<lambda>path. None) (\<lambda>e. ''error'') ''0.42'' round_robin (Some 9)
     \<lparr> arg_target = ''localhost'', arg_start = 79, arg_end = 81, arg_threads = 2,
       arg_output = Some ''out.txt'' \<rparr>) = None"
proof -
  let ?a = "\<lparr> arg_target = ''localhost'', arg_start = 79, arg_end = 81, arg_threads = 2,
       arg_output = Some ''out.txt'' \<rparr>"
  have g: "gethostbyname host80 (arg_target ?a) = Inr ''127.0.0.1''"
    by (simp add: host80_def)
  have "scan_ports host80 round_robin (Some 9) ''127.0.0.1'' 79 81 2 = Raises KeyboardInterrupt"
    by code_simp
  then have k: "scan_ports host80 round_robin (Some 9) ''127.0.0.1''
      (arg_start ?a) (arg_end ?a) (arg_threads ?a) = Raises KeyboardInterrupt"
    by simp
  show ?thesis
    by (simp add: interrupt_prints_message_only [OF g k])
qed

text \<open>
  The claim also says that the results gathered so far are reported. Here the interrupt
  arrives when port 80 is already in \<open>open_ports\<close>; the output does not mention it and
  no report is written.
\<close>

theorem interrupt_drops_partial_results:
  "main host80 (\<lambda>path. None) (\<lambda>e. ''error'') ''0.42'' round_robin (Some 9)
     \<lparr> arg_target = ''localhost'', arg_start = 79, arg_end = 81, arg_threads = 2,
       arg_output = Some ''out.txt'' \<rparr>
   = \<lparr> stdout =
        [nl @ ''Starting Less Basic Port Scanner'',
         ''Target: localhost (127.0.0.1)'',
         ''Port range:79-81'',
         ''Threads: 2'',
         ''Timeout 1.0 seconds'' @ nl,
         nl @ ''Scan interrupted by user''],
       report = None,
       scan = Some \<lparr> queue = [], unfinished_tasks = 1, open_ports = [(80, ''http'')],
                     progress_counter = 2, workers = [AtScan 81, AtGet],
                     probed = [(0, 79), (1, 80)] \<rparr>,
       ending = Returns () \<rparr>"
  by code_simp

subsection \<open>The result does not depend on the schedule\<close>

text \<open>
  C9. Two runs over the same range, with any two schedules and thread counts, in which
  the probes find the same ports reachable (and the service names of those ports are the
  same) return the same list.
\<close>

theorem scan_result_deterministic:
  assumes "scan_ports en1 sched1 intr1 ip s e t1 = Returns r1"
    and "scan_ports en2 sched2 intr2 ip s e t2 = Returns r2"
    and "\<forall>p \<in> {s..e}. reachable en1 ip p = reachable en2 ip p"
    and "\<forall>p \<in> {s..e}. reachable en1 ip p \<longrightarrow> get_service_name en1 p = get_service_name en2 p"
  shows "r1 = r2"
proof -
  have "recorded en1 ip p = recorded en2 ip p" if "p \<in> set [s..e]" for p
    using assms(3,4) that by (simp add: recorded_eq)
  then have "map (recorded en1 ip) [s..e] = map (recorded en2 ip) [s..e]"
    by (intro map_cong refl)
  then have "expected en1 ip s e = expected en2 ip s e"
    by (simp only: expected_def)
  then show ?thesis
    using scan_ports_Returns(2) [OF assms(1)] scan_ports_Returns(2) [OF assms(2)] by simp
qed

theorem scan_result_deterministic_witness:
  "scan_ports host80 round_robin None ''127.0.0.1'' 79 82 2
   = scan_ports flaky80 (\<lambda>k. 0) None ''127.0.0.1'' 79 82 3"
proof -
  have r1: "scan_ports host80 round_robin None ''127.0.0.1'' 79 82 2 = Returns [(80, ''http'')]"
    by code_simp
  have r2: "scan_ports flaky80 (\<lambda>k. 0) None ''127.0.0.1'' 79 82 3 = Returns [(80, ''http'')]"
    by code_simp
  have a: "\<forall>p \<in> {79..82}. reachable host80 ''127.0.0.1'' p = reachable flaky80 ''127.0.0.1'' p"
    by (simp add: reachable_def flaky80_def host80_def)
  have b: "\<forall>p \<in> {79..82}. reachable host80 ''127.0.0.1'' p
      \<longrightarrow> get_service_name host80 p = get_service_name flaky80 p"
    by (simp add: get_service_name_def flaky80_def host80_def)
  have "[(80, ''http'')] = [(80 :: int, ''http'')]"
    by (rule scan_result_deterministic [OF r1 r2 a b])
  then show ?thesis by (simp only: r1 r2)
qed

subsection \<open>An empty range\<close>

text \<open>
  C10. With \<open>end_port < start_port\<close> the number of ports is not positive, nothing is
  put in the queue, no thread is started, nothing is probed, and \<open>scan_ports\<close> returns
  the empty list, for every thread count.
\<close>

theorem empty_range_returns_nothing:
  assumes "e < s"
  shows "e - s + 1 \<le> 0
    \<and> queue (initial s e t) = []
    \<and> workers (initial s e t) = []
    \<and> scan_run en sched intr ip s e t = initial s e t
    \<and> probed (scan_run en sched intr ip s e t) = []
    \<and> scan_ports en sched intr ip s e t = Returns []"
proof -
  have w: "workers (initial s e t) = []" and q: "queue (initial s e t) = []"
    and u: "unfinished_tasks (initial s e t) = 0" and p: "probed (initial s e t) = []"
    and o: "open_ports (initial s e t) = []"
    using assms by (simp_all add: initial_def Let_def)
  have r: "scan_run en sched intr ip s e t = initial s e t"
    unfolding scan_run_def by (rule run_no_workers [OF w])
  have "scan_ports en sched intr ip s e t = Returns []"
    by (simp add: scan_ports_def r joined_def w u o alive_def)
  then show ?thesis using assms w q r p by simp
qed

theorem empty_range_returns_nothing_witness:
  "scan_ports host80 round_robin None ''127.0.0.1'' 5 4 100 = Returns []"
  using empty_range_returns_nothing [of 4 5 100 host80 round_robin None "''127.0.0.1''"]
  by simp

end
